theory Spec2Isabelle
  imports Complex_Main
begin

section \<open>Gaussian adaptive attention (MHGAAM.py)\<close>

text \<open>
  The module defines two classes: \<^verbatim>\<open>GaussianAdaptiveAttention\<close> (one head) and
  \<^verbatim>\<open>MultiHeadGaussianAdaptiveAttention\<close> (a list of heads, each applied to a contiguous
  chunk of the input along \<^verbatim>\<open>norm_axis\<close>).

  Conventions of the embedding.
  \<^item> Tensor elements are real numbers: arithmetic is exact. Rounding, infinities and NaN of
    the float32 arithmetic of torch are not represented. Where torch would divide zero by
    zero and return NaN (the mean of an empty slice, the unbiased variance of a slice of
    fewer than two elements, a zero scale at a zero deviation) the division of HOL returns
    0; the results below are to be read for the inputs on which no such division occurs.
  \<^item> Every torch operation of \<^verbatim>\<open>forward\<close> along \<^verbatim>\<open>dim=self.norm_axis\<close> with
    \<^verbatim>\<open>keepdim=True\<close>, followed by broadcasting, acts on each one-dimensional slice along
    that axis independently of the others. A tensor is therefore represented by its extent
    along \<^verbatim>\<open>norm_axis\<close> and the list of its slices along that axis (one slice for each
    index of the other axes, in a fixed order).
  \<^item> An exception is a value \<open>Inl e\<close> of the result type.
\<close>

subsection \<open>Data model\<close>

datatype error = ValueError | TypeError | ZeroDivisionError | AttributeError
  | IndexError | RuntimeError

record tensor =
  extent :: nat
  fibres :: "real list list"

text \<open>Every slice of a tensor has the length the shape says.\<close>

definition wf_tensor :: "tensor \<Rightarrow> bool" where
  "wf_tensor x = list_all (\<lambda>f. length f = extent x) (fibres x)"

text \<open>
  \<^verbatim>\<open>self.weights\<close> is either an \<^verbatim>\<open>nn.Parameter\<close> or a plain \<^verbatim>\<open>torch.Tensor\<close>;
  \<^verbatim>\<open>forward\<close> tests which with \<^verbatim>\<open>isinstance(self.weights, nn.Parameter)\<close>.
  \<^verbatim>\<open>nn.Parameter\<close> is a subclass of \<^verbatim>\<open>torch.Tensor\<close>.
\<close>

datatype weights_t = Parameter "real list" | Plain "real list"

fun values_of :: "weights_t \<Rightarrow> real list" where
  "values_of (Parameter w) = w"
| "values_of (Plain w) = w"

text \<open>
  The argument \<^verbatim>\<open>initial_c\<close>: a number, or a one-dimensional tensor.
  The argument \<^verbatim>\<open>learnable_weights\<close>: any Python value; the constructor distinguishes
  the object \<^verbatim>\<open>True\<close>, a tensor (one-dimensional here), and everything else.
\<close>

datatype scale_arg = ScaleNumber real | ScaleTensor "real list"

datatype weights_arg = PyBool bool | PyNone | PyNumber real | PyList "real list"
  | PyTensor weights_t

record gaa =
  norm_axis :: nat
  eps :: real
  num_gaussians :: nat
  padding_value :: "real option"
  mean_offsets :: "real list"
  scale_c :: "real list"
  weights :: weights_t

subsection \<open>\<^verbatim>\<open>GaussianAdaptiveAttention.__init__\<close>\<close>

text \<open>Lines 18 to 24: the scale \<^verbatim>\<open>self.c\<close>.\<close>

definition init_c :: "nat \<Rightarrow> scale_arg \<Rightarrow> error + real list" where
  "init_c G initial_c =
     (case initial_c of
        ScaleTensor t \<Rightarrow> if length t \<noteq> G then Inl ValueError else Inr t
      | ScaleNumber v \<Rightarrow> Inr (replicate G v))"

text \<open>Lines 27 to 34: \<^verbatim>\<open>self.weights\<close>. Only the object \<^verbatim>\<open>True\<close> passes the first test.\<close>

definition init_weights :: "nat \<Rightarrow> weights_arg \<Rightarrow> error + weights_t" where
  "init_weights G learnable_weights =
     (if learnable_weights = PyBool True then Inr (Parameter (replicate G 1))
      else (case learnable_weights of
              PyTensor w \<Rightarrow> if length (values_of w) \<noteq> G then Inl ValueError else Inr w
            | _ \<Rightarrow> Inl TypeError))"

definition init :: "nat \<Rightarrow> nat \<Rightarrow> scale_arg \<Rightarrow> real \<Rightarrow> weights_arg \<Rightarrow> real option
    \<Rightarrow> error + gaa" where
  "init axis G initial_c e learnable_weights pad =
     (case init_c G initial_c of
        Inl err \<Rightarrow> Inl err
      | Inr cs \<Rightarrow>
          (case init_weights G learnable_weights of
             Inl err \<Rightarrow> Inl err
           | Inr ws \<Rightarrow>
               Inr \<lparr>norm_axis = axis, eps = e, num_gaussians = G, padding_value = pad,
                    mean_offsets = replicate G 0, scale_c = cs, weights = ws\<rparr>))"

text \<open>The shape invariant of an instance: every per-component tensor has
  \<^verbatim>\<open>num_gaussians\<close> entries. Training changes the entries, never the shapes.\<close>

definition gaa_ok :: "gaa \<Rightarrow> bool" where
  "gaa_ok g = (length (mean_offsets g) = num_gaussians g
     \<and> length (scale_c g) = num_gaussians g
     \<and> length (values_of (weights g)) = num_gaussians g)"

subsection \<open>\<^verbatim>\<open>GaussianAdaptiveAttention.forward\<close>\<close>

text \<open>Lines 40 to 44, on one slice: \<^verbatim>\<open>torch.where(mask, x, torch.zeros_like(x))\<close>.\<close>

definition x_masked :: "real option \<Rightarrow> real list \<Rightarrow> real list" where
  "x_masked pad f =
     (case pad of
        Some p \<Rightarrow> map (\<lambda>v. if v \<noteq> p then v else 0) f
      | None \<Rightarrow> f)"

text \<open>\<^verbatim>\<open>Tensor.mean\<close> and \<^verbatim>\<open>Tensor.var\<close> along the axis. \<^verbatim>\<open>var\<close> is called without
  \<^verbatim>\<open>unbiased\<close> or \<^verbatim>\<open>correction\<close>, so torch applies Bessel's correction: the divisor is
  \<open>max 0 (N - 1)\<close>, which is what the subtraction on \<open>nat\<close> computes.\<close>

definition mean_t :: "real list \<Rightarrow> real" where
  "mean_t f = sum_list f / real (length f)"

definition var_t :: "real list \<Rightarrow> real" where
  "var_t f = (\<Sum>v\<leftarrow>f. (v - mean_t f)\<^sup>2) / real (length f - 1)"

text \<open>\<^verbatim>\<open>F.softmax(w, dim=0)\<close>, and line 51.\<close>

definition softmax :: "real list \<Rightarrow> real list" where
  "softmax w = map (\<lambda>v. exp v / (\<Sum>u\<leftarrow>w. exp u)) w"

definition normalized_weights :: "gaa \<Rightarrow> real list" where
  "normalized_weights g =
     (case weights g of Parameter w \<Rightarrow> softmax w | Plain w \<Rightarrow> w)"

text \<open>Lines 47 and 48, on one slice: the statistics of the masked copy.\<close>

definition mean_of :: "gaa \<Rightarrow> real list \<Rightarrow> real" where
  "mean_of g f = mean_t (x_masked (padding_value g) f)"

definition var_of :: "gaa \<Rightarrow> real list \<Rightarrow> real" where
  "var_of g f = var_t (x_masked (padding_value g) f) + eps g"

text \<open>Lines 56 to 58: the response of component \<open>i\<close> on one slice. The deviation is
  taken from the original \<^verbatim>\<open>x\<close>, not from the masked copy.\<close>

definition gaussian :: "gaa \<Rightarrow> real list \<Rightarrow> nat \<Rightarrow> real list" where
  "gaussian g f i =
     (let adjusted_mean = mean_of g f + mean_offsets g ! i
      in map (\<lambda>v. exp (- (((v - adjusted_mean) / sqrt (var_of g f))\<^sup>2)
                        / (2 * (scale_c g ! i)\<^sup>2))) f)"

text \<open>Lines 54 to 59: the loop over \<^verbatim>\<open>range(self.num_gaussians)\<close>, starting from 0
  broadcast to the shape of the slice.\<close>

definition mixture_step :: "gaa \<Rightarrow> real list \<Rightarrow> real list \<Rightarrow> nat \<Rightarrow> real list" where
  "mixture_step g f mixture i =
     map2 (+) mixture (map (\<lambda>v. normalized_weights g ! i * v) (gaussian g f i))"

definition mixture_of :: "gaa \<Rightarrow> real list \<Rightarrow> real list" where
  "mixture_of g f =
     foldl (mixture_step g f) (replicate (length f) 0) [0..<num_gaussians g]"

text \<open>Line 62: \<^verbatim>\<open>mixture / mixture.sum(dim, keepdim=True).clamp(min=self.eps)\<close>.\<close>

definition y_transform :: "gaa \<Rightarrow> real list \<Rightarrow> real list" where
  "y_transform g f =
     (let mixture = mixture_of g f;
          total = max (sum_list mixture) (eps g)
      in map (\<lambda>m. m / total) mixture)"

text \<open>Line 63, on one slice.\<close>

definition forward_fibre :: "gaa \<Rightarrow> real list \<Rightarrow> real list" where
  "forward_fibre g f =
     (case padding_value g of
        Some p \<Rightarrow> map2 (\<lambda>v t. if v \<noteq> p then v * t else v) f (y_transform g f)
      | None \<Rightarrow> map2 (*) f (y_transform g f))"

text \<open>
  The whole call. The exceptions of \<^verbatim>\<open>forward\<close> do not depend on the elements of
  \<^verbatim>\<open>x\<close>, so they are decided before the slices are mapped:
  \<^item> with \<^verbatim>\<open>num_gaussians = 0\<close> the loop body never runs, \<^verbatim>\<open>mixture\<close> is still the
    Python integer 0 and \<^verbatim>\<open>mixture.sum\<close> raises AttributeError;
  \<^item> otherwise the loop reads \<^verbatim>\<open>mean_offsets[i]\<close>, \<^verbatim>\<open>c[i]\<close> and
    \<^verbatim>\<open>normalized_weights[i]\<close> for every \<open>i < num_gaussians\<close>, which raises IndexError
    when one of them is shorter.
\<close>

definition forward :: "gaa \<Rightarrow> tensor \<Rightarrow> error + tensor" where
  "forward g x =
     (if num_gaussians g = 0 then Inl AttributeError
      else if length (mean_offsets g) < num_gaussians g
            \<or> length (scale_c g) < num_gaussians g
            \<or> length (normalized_weights g) < num_gaussians g then Inl IndexError
      else Inr \<lparr>extent = extent x, fibres = map (forward_fibre g) (fibres x)\<rparr>)"

subsection \<open>\<^verbatim>\<open>MultiHeadGaussianAdaptiveAttention\<close>\<close>

text \<open>A list comprehension whose body may raise: the first exception ends it.\<close>

fun map_e :: "('a \<Rightarrow> error + 'b) \<Rightarrow> 'a list \<Rightarrow> error + 'b list" where
  "map_e F [] = Inr []"
| "map_e F (a # as) =
     (case F a of
        Inl err \<Rightarrow> Inl err
      | Inr b \<Rightarrow> (case map_e F as of Inl err \<Rightarrow> Inl err | Inr bs \<Rightarrow> Inr (b # bs)))"

text \<open>Of the fields that \<^verbatim>\<open>__init__\<close> stores, \<^verbatim>\<open>forward\<close> reads \<^verbatim>\<open>num_heads\<close> and
  \<^verbatim>\<open>attention_heads\<close>; the others are copies of the arguments, which every head holds too.\<close>

record mhgaa =
  num_heads :: nat
  attention_heads :: "gaa list"

text \<open>Line 78: one head for each element of \<^verbatim>\<open>range(num_heads)\<close>, all built from the same
  arguments.\<close>

definition mh_init :: "nat \<Rightarrow> nat \<Rightarrow> nat \<Rightarrow> scale_arg \<Rightarrow> weights_arg \<Rightarrow> real option \<Rightarrow> real
    \<Rightarrow> error + mhgaa" where
  "mh_init axis H G initial_variance learnable_weights pad e =
     (case map_e (\<lambda>_. init axis G initial_variance e learnable_weights pad) [0..<H] of
        Inl err \<Rightarrow> Inl err
      | Inr heads \<Rightarrow> Inr \<lparr>num_heads = H, attention_heads = heads\<rparr>)"

text \<open>\<^verbatim>\<open>x.narrow(dim, start, length)\<close>: torch raises when the range leaves the axis.\<close>

definition narrow :: "tensor \<Rightarrow> nat \<Rightarrow> nat \<Rightarrow> error + tensor" where
  "narrow x start len =
     (if start + len \<le> extent x
      then Inr \<lparr>extent = len, fibres = map (\<lambda>f. take len (drop start f)) (fibres x)\<rparr>
      else Inl RuntimeError)"

text \<open>\<^verbatim>\<open>torch.cat(ts, dim)\<close>: the list must not be empty and the tensors must agree on the
  other axes; slice by slice, the tensors are appended in list order.\<close>

fun cat :: "tensor list \<Rightarrow> error + tensor" where
  "cat [] = Inl RuntimeError"
| "cat [t] = Inr t"
| "cat (t # ts) =
     (case cat ts of
        Inl err \<Rightarrow> Inl err
      | Inr r \<Rightarrow>
          if length (fibres t) = length (fibres r)
          then Inr \<lparr>extent = extent t + extent r, fibres = map2 (@) (fibres t) (fibres r)\<rparr>
          else Inl RuntimeError)"

text \<open>Lines 80 to 87. Python's \<^verbatim>\<open>//\<close> raises ZeroDivisionError for a zero divisor.\<close>

definition mh_forward :: "mhgaa \<Rightarrow> tensor \<Rightarrow> error + tensor" where
  "mh_forward m x =
     (if num_heads m = 0 then Inl ZeroDivisionError
      else
        let chunk_size = extent x div num_heads m
        in if chunk_size = 0 then Inl ValueError
           else
             (case map_e (\<lambda>(i, head).
                      case narrow x (i * chunk_size) chunk_size of
                        Inl err \<Rightarrow> Inl err
                      | Inr s \<Rightarrow> forward head s)
                    (enumerate 0 (attention_heads m)) of
                Inl err \<Rightarrow> Inl err
              | Inr ys \<Rightarrow> cat ys))"

subsection \<open>The specification's reading of the multi-head call\<close>

text \<open>
  The specification describes the result by index: head \<open>i\<close> receives the elements of
  every slice at the positions \<open>i * chunk_size \<le> k < (i + 1) * chunk_size\<close>, and the
  results of the heads are laid one after the other, in the order of the head indices.
  These two definitions follow those words; the theorems below compare them with
  \<open>mh_forward\<close>.
\<close>

definition head_slice :: "tensor \<Rightarrow> nat \<Rightarrow> nat \<Rightarrow> tensor" where
  "head_slice x chunk_size i =
     \<lparr>extent = chunk_size,
      fibres = map (\<lambda>f. map (\<lambda>k. f ! k) [i * chunk_size..<(i + 1) * chunk_size]) (fibres x)\<rparr>"

definition concat_heads :: "nat \<Rightarrow> nat \<Rightarrow> (nat \<Rightarrow> tensor) \<Rightarrow> tensor" where
  "concat_heads n H r =
     \<lparr>extent = (\<Sum>i\<leftarrow>[0..<H]. extent (r i)),
      fibres = map (\<lambda>j. concat (map (\<lambda>i. fibres (r i) ! j) [0..<H])) [0..<n]\<rparr>"

subsection \<open>Instances used in the examples\<close>

text \<open>One learnable component with the default scale and epsilon, and padding value \<open>-1\<close>.\<close>

definition g_pad :: gaa where
  "g_pad = \<lparr>norm_axis = 0, eps = 1 / 10 ^ 8, num_gaussians = 1, padding_value = Some (- 1),
            mean_offsets = [0], scale_c = [2], weights = Parameter [1]\<rparr>"

text \<open>The same without a padding value: what
  \<^verbatim>\<open>GaussianAdaptiveAttention(norm_axis=0, num_gaussians=1)\<close> constructs.\<close>

definition g_one :: gaa where
  "g_one = \<lparr>norm_axis = 0, eps = 1 / 10 ^ 8, num_gaussians = 1, padding_value = None,
            mean_offsets = [0], scale_c = [2], weights = Parameter [1]\<rparr>"

text \<open>The response of \<open>g_one\<close> on the slice \<open>[1, 2, 3, 4]\<close> at squared deviation \<open>d\<close>
  from the mean.\<close>

definition bell :: "real \<Rightarrow> real" where
  "bell d = exp (- (d / (5 / 3 + 1 / 10 ^ 8)) / 8)"

text \<open>Two learnable components with distinct weight parameters.\<close>

definition g_mix :: gaa where
  "g_mix = \<lparr>norm_axis = 0, eps = 1 / 10 ^ 8, num_gaussians = 2, padding_value = None,
            mean_offsets = [0, 1], scale_c = [2, 1], weights = Parameter [0, ln 2]\<rparr>"

text \<open>A second head, with other parameter values, and a module of two heads.\<close>

definition g_sharp :: gaa where
  "g_sharp = \<lparr>norm_axis = 0, eps = 1 / 10 ^ 8, num_gaussians = 1, padding_value = None,
            mean_offsets = [1 / 2], scale_c = [1], weights = Parameter [3]\<rparr>"

definition m_two :: mhgaa where
  "m_two = \<lparr>num_heads = 2, attention_heads = [g_one, g_sharp]\<rparr>"

definition x_eight :: tensor where
  "x_eight = \<lparr>extent = 8, fibres = [[1, 2, 3, 4, 5, 6, 7, 8]]\<rparr>"

definition x_seven :: tensor where
  "x_seven = \<lparr>extent = 7, fibres = [[1, 2, 3, 4, 5, 6, 7]]\<rparr>"

section \<open>Construction\<close>

lemma init_c_tensor:
  "init_c G (ScaleTensor t) = (if length t = G then Inr t else Inl ValueError)"
  by (simp add: init_c_def)

lemma init_weights_ok:
  "init_weights G lw = Inr ws \<Longrightarrow> length (values_of ws) = G"
  by (auto simp: init_weights_def split: if_splits weights_arg.splits)

lemma init_c_ok: "init_c G ic = Inr cs \<Longrightarrow> length cs = G"
  by (auto simp: init_c_def split: if_splits scale_arg.splits)

lemma init_gaa_ok: "init axis G ic e lw pad = Inr g \<Longrightarrow> gaa_ok g"
  by (auto simp: init_def gaa_ok_def split: sum.splits dest: init_c_ok init_weights_ok)

text \<open>
  Claim C8. An explicit scale tensor whose length differs from \<^verbatim>\<open>num_gaussians\<close> makes
  the constructor raise ValueError, whatever the other arguments are; with a scale tensor
  of length exactly \<^verbatim>\<open>num_gaussians\<close> (and an accepted \<^verbatim>\<open>learnable_weights\<close>: the
  default \<^verbatim>\<open>True\<close>, or a tensor of that length) the constructor succeeds and
  \<^verbatim>\<open>self.c\<close> holds that tensor.
\<close>

theorem init_scale_length_checked:
  "(length t \<noteq> G \<longrightarrow> init axis G (ScaleTensor t) e lw pad = Inl ValueError)
   \<and> (length t = G \<longrightarrow>
        (\<exists>g. init axis G (ScaleTensor t) e (PyBool True) pad = Inr g \<and> scale_c g = t)
      \<and> (\<forall>w. length (values_of w) = G \<longrightarrow>
            (\<exists>g. init axis G (ScaleTensor t) e (PyTensor w) pad = Inr g \<and> scale_c g = t)))"
  by (simp add: init_def init_c_def init_weights_def)

theorem init_scale_length_checked_witness:
  "init 0 2 (ScaleTensor [1, 2, 3]) (1 / 10 ^ 8) (PyBool True) None = Inl ValueError
   \<and> (\<exists>g. init 0 2 (ScaleTensor [1, 2]) (1 / 10 ^ 8) (PyBool True) None = Inr g
          \<and> scale_c g = [1, 2])
   \<and> (\<exists>g. init 0 2 (ScaleTensor [1, 2]) (1 / 10 ^ 8) (PyTensor (Plain [3, 4])) None = Inr g
          \<and> scale_c g = [1, 2])"
  using init_scale_length_checked [of "[1, 2, 3]" 2 0 "1 / 10 ^ 8" "PyBool True" None]
    init_scale_length_checked [of "[1, 2]" 2 0 "1 / 10 ^ 8" "PyBool True" None]
  by simp



section \<open>The single head\<close>

lemma length_softmax: "length (softmax w) = length w"
  by (simp add: softmax_def)

lemma length_normalized_weights:
  "length (normalized_weights g) = length (values_of (weights g))"
  by (cases "weights g") (simp_all add: normalized_weights_def length_softmax)

lemma length_gaussian: "length (gaussian g f i) = length f"
  by (simp add: gaussian_def Let_def)

lemma length_mixture_step:
  "length mixture = length f \<Longrightarrow> length (mixture_step g f mixture i) = length f"
  by (simp add: mixture_step_def length_gaussian)

lemma length_foldl_mixture_step:
  "length mixture = length f \<Longrightarrow> length (foldl (mixture_step g f) mixture is) = length f"
  by (induction "is" arbitrary: mixture) (simp_all add: length_mixture_step)

lemma length_mixture_of: "length (mixture_of g f) = length f"
  by (simp add: mixture_of_def length_foldl_mixture_step)

lemma length_y_transform: "length (y_transform g f) = length f"
  by (simp add: y_transform_def Let_def length_mixture_of)

lemma length_forward_fibre: "length (forward_fibre g f) = length f"
  by (cases "padding_value g") (simp_all add: forward_fibre_def length_y_transform)

lemma forward_succeeds:
  "gaa_ok g \<Longrightarrow> num_gaussians g \<noteq> 0 \<Longrightarrow>
   forward g x = Inr \<lparr>extent = extent x, fibres = map (forward_fibre g) (fibres x)\<rparr>"
  by (simp add: forward_def gaa_ok_def length_normalized_weights)

lemma forward_wf:
  "forward g x = Inr y \<Longrightarrow> wf_tensor x \<Longrightarrow> wf_tensor y"
  by (auto simp: forward_def wf_tensor_def list_all_iff length_forward_fibre split: if_splits)

text \<open>
  Claim C1. With a padding value configured, the call succeeds (for an instance with at
  least one component), keeps the shape, and at every position of every slice returns the
  input element itself where it equals the padding value, and the input element times the
  transform at that position everywhere else.
\<close>

theorem padding_passthrough:
  assumes "padding_value g = Some pad" and "gaa_ok g" and "num_gaussians g \<noteq> 0"
    and "j < length (fibres x)" and "p < length (fibres x ! j)"
  shows "\<exists>y. forward g x = Inr y \<and> extent y = extent x
           \<and> length (fibres y) = length (fibres x)
           \<and> length (fibres y ! j) = length (fibres x ! j)
           \<and> fibres y ! j ! p =
               (if fibres x ! j ! p = pad then fibres x ! j ! p
                else fibres x ! j ! p * y_transform g (fibres x ! j) ! p)"
proof -
  let ?f = "fibres x ! j"
  have "forward_fibre g ?f ! p = (if ?f ! p = pad then ?f ! p else ?f ! p * y_transform g ?f ! p)"
    using assms(1,5) by (simp add: forward_fibre_def length_y_transform)
  then show ?thesis
    using assms(2,3,4) by (simp add: forward_succeeds length_forward_fibre)
qed

theorem padding_passthrough_witness:
  "\<exists>y. forward g_pad \<lparr>extent = 3, fibres = [[2, 4, - 1]]\<rparr> = Inr y
       \<and> fibres y ! 0 ! 2 = - 1
       \<and> fibres y ! 0 ! 0 = 2 * y_transform g_pad [2, 4, - 1] ! 0"
proof -
  let ?x = "\<lparr>extent = 3, fibres = [[2, 4, - 1]]\<rparr>"
  have pre: "padding_value g_pad = Some (- 1)" "gaa_ok g_pad" "num_gaussians g_pad \<noteq> 0"
    by (simp_all add: g_pad_def gaa_ok_def)
  obtain y where y: "forward g_pad ?x = Inr y" "fibres y ! 0 ! 2 = - 1"
    using padding_passthrough [OF pre, of 0 ?x 2] by auto
  obtain y' where y': "forward g_pad ?x = Inr y'"
    "fibres y' ! 0 ! 0 = 2 * y_transform g_pad [2, 4, - 1] ! 0"
    using padding_passthrough [OF pre, of 0 ?x 0] by auto
  from y(1) y'(1) have "y' = y" by simp
  with y y' show ?thesis by blast
qed

lemma sum_list_exp_pos: "w \<noteq> [] \<Longrightarrow> 0 < (\<Sum>u\<leftarrow>w. exp (u::real))"
proof (induction w)
  case Nil
  then show ?case by simp
next
  case (Cons a w)
  have "0 \<le> (\<Sum>u\<leftarrow>w. exp u)" by (rule sum_list_nonneg) auto
  then show ?case by (simp add: add_pos_nonneg)
qed

lemma sum_list_map_divide:
  "(\<Sum>v\<leftarrow>xs. h v / (c::real)) = (\<Sum>v\<leftarrow>xs. h v) / c"
  by (induction xs) (simp_all add: add_divide_distrib)

text \<open>
  Claim C6. When \<^verbatim>\<open>self.weights\<close> is an \<^verbatim>\<open>nn.Parameter\<close> (the learnable mode) with at least
  one component, the weights that \<^verbatim>\<open>forward\<close> uses are the softmax of the parameter across
  the components: there are as many as components, weight \<open>i\<close> is
  \<open>exp (w ! i)\<close> divided by the sum of \<open>exp\<close> over all the parameters, this is the factor
  by which the loop multiplies the response of component \<open>i\<close>, each weight is non-negative,
  and their sum is 1 (exactly, over the reals).
\<close>

theorem learnable_weights_softmax:
  assumes "weights g = Parameter w" and "w \<noteq> []"
  shows "normalized_weights g = softmax w
         \<and> length (normalized_weights g) = length w
         \<and> (\<forall>i < length w. normalized_weights g ! i = exp (w ! i) / (\<Sum>u\<leftarrow>w. exp u))
         \<and> (\<forall>i < length w. mixture_step g f mixture i
               = map2 (+) mixture
                   (map (\<lambda>v. exp (w ! i) / (\<Sum>u\<leftarrow>w. exp u) * v) (gaussian g f i)))
         \<and> (\<forall>i < length w. 0 \<le> normalized_weights g ! i)
         \<and> sum_list (normalized_weights g) = 1"
proof -
  have nw: "normalized_weights g = softmax w"
    using assms(1) by (simp add: normalized_weights_def)
  have pos: "0 < (\<Sum>u\<leftarrow>w. exp u)" using assms(2) by (rule sum_list_exp_pos)
  have "sum_list (softmax w) = (\<Sum>u\<leftarrow>w. exp u) / (\<Sum>u\<leftarrow>w. exp u)"
    by (simp add: softmax_def sum_list_map_divide)
  then have s: "sum_list (softmax w) = 1" using pos by simp
  have f: "\<forall>i < length w. softmax w ! i = exp (w ! i) / (\<Sum>u\<leftarrow>w. exp u)"
    by (simp add: softmax_def)
  have n: "\<forall>i < length w. 0 \<le> softmax w ! i"
    using pos by (simp add: softmax_def)
  have m: "\<forall>i < length w. mixture_step g f mixture i
      = map2 (+) mixture (map (\<lambda>v. exp (w ! i) / (\<Sum>u\<leftarrow>w. exp u) * v) (gaussian g f i))"
    using f by (simp add: mixture_step_def nw)
  from nw s f n m show ?thesis by (simp add: length_softmax)
qed

text \<open>Two components with the distinct parameters \<open>0\<close> and \<open>ln 2\<close>: the weights are
  \<open>1/3\<close> and \<open>2/3\<close>.\<close>

theorem learnable_weights_softmax_witness:
  "normalized_weights g_mix = [1 / 3, 2 / 3]
   \<and> normalized_weights g_mix ! 0 = 1 / 3 \<and> normalized_weights g_mix ! 1 = 2 / 3
   \<and> sum_list (normalized_weights g_mix) = 1
   \<and> mixture_step g_mix [1, 2] [0, 0] 1
       = map2 (+) [0, 0] (map (\<lambda>v. 2 / 3 * v) (gaussian g_mix [1, 2] 1))"
proof -
  have pre: "weights g_mix = Parameter [0, ln 2]" "[0, ln 2 :: real] \<noteq> []"
    by (simp_all add: g_mix_def)
  have s: "(\<Sum>u\<leftarrow>[0, ln 2 :: real]. exp u) = 3" by simp
  note t = learnable_weights_softmax [OF pre, of "[1, 2]" "[0, 0]"]
  from t have f: "\<forall>i<length [0, ln 2 :: real].
      normalized_weights g_mix ! i = exp ([0, ln 2] ! i) / (\<Sum>u\<leftarrow>[0, ln 2]. exp u)"
    by blast
  from f [rule_format, of 0] have a0: "normalized_weights g_mix ! 0 = 1 / 3"
    unfolding s by simp
  from f [rule_format, of 1] have a1: "normalized_weights g_mix ! 1 = 2 / 3"
    unfolding s by simp
  from t have l: "length (normalized_weights g_mix) = length [0, ln 2 :: real]" by blast
  from t have u: "sum_list (normalized_weights g_mix) = 1" by blast
  from t have "\<forall>i<length [0, ln 2 :: real]. mixture_step g_mix [1, 2] [0, 0] i
      = map2 (+) [0, 0]
          (map (\<lambda>v. exp ([0, ln 2] ! i) / (\<Sum>u\<leftarrow>[0, ln 2]. exp u) * v)
             (gaussian g_mix [1, 2] i))"
    by blast
  note ms = this
  have ex: "exp ([0, ln 2 :: real] ! 1) / (\<Sum>u\<leftarrow>[0, ln 2]. exp u) = 2 / 3" by simp
  have lt: "(1::nat) < length [0, ln 2 :: real]" by simp
  from ms [rule_format, OF lt] have m: "mixture_step g_mix [1, 2] [0, 0] 1
       = map2 (+) [0, 0] (map (\<lambda>v. 2 / 3 * v) (gaussian g_mix [1, 2] 1))"
    unfolding ex .
  have "normalized_weights g_mix = [1 / 3, 2 / 3]"
  proof (rule nth_equalityI)
    show "length (normalized_weights g_mix) = length [1 / 3, 2 / 3 :: real]"
      using l by simp
    fix i assume "i < length (normalized_weights g_mix)"
    then have "i = 0 \<or> i = 1" using l by auto
    then show "normalized_weights g_mix ! i = [1 / 3, 2 / 3] ! i"
      using a0 a1 by auto
  qed
  with a0 a1 u m show ?thesis by blast
qed

text \<open>
  Claim C9. For a positive epsilon and any slice: without a padding value the output is the
  slice times the transform; the transform sums to 1 over the slice when the sum of the
  mixture is at least epsilon; otherwise the clamp replaces the divisor by epsilon, and the
  transform sums to the mixture sum divided by epsilon, which is less than 1.
\<close>

theorem transform_sums_to_one:
  assumes "0 < eps g"
  shows "(padding_value g = None \<longrightarrow> forward_fibre g f = map2 (*) f (y_transform g f))
    \<and> (eps g \<le> sum_list (mixture_of g f) \<longrightarrow> sum_list (y_transform g f) = 1)
    \<and> (sum_list (mixture_of g f) < eps g \<longrightarrow>
          sum_list (y_transform g f) = sum_list (mixture_of g f) / eps g
        \<and> sum_list (y_transform g f) < 1)"
proof -
  let ?s = "sum_list (mixture_of g f)"
  have t: "sum_list (y_transform g f) = ?s / max ?s (eps g)"
    by (simp add: y_transform_def Let_def sum_list_map_divide)
  have a: "eps g \<le> ?s \<longrightarrow> sum_list (y_transform g f) = 1"
    using assms t by (simp add: max_def)
  have b: "?s < eps g \<longrightarrow> sum_list (y_transform g f) = ?s / eps g \<and> sum_list (y_transform g f) < 1"
    using assms t by (simp add: max_def)
  have c: "padding_value g = None \<longrightarrow> forward_fibre g f = map2 (*) f (y_transform g f)"
    by (simp add: forward_fibre_def)
  from a b c show ?thesis by blast
qed

lemma sum_list_zero_fill:
  "sum_list (map (\<lambda>v. if v \<noteq> p then v else 0) f) = sum_list (filter (\<lambda>v. v \<noteq> (p::real)) f)"
  by (induction f) simp_all

lemma sum_sq_zero_fill:
  "(\<Sum>v\<leftarrow>f. ((if v \<noteq> p then v else 0) - m)\<^sup>2)
   = (\<Sum>v\<leftarrow>filter (\<lambda>v. v \<noteq> p) f. (v - m)\<^sup>2) + real (length (filter (\<lambda>v. v = p) f)) * m\<^sup>2"
  for p m :: real
  by (induction f) (simp_all add: algebra_simps)

text \<open>
  Claim C2, as amended. With a padding value configured, the statistics are those of the
  slice with every padding position set to zero: the mean is the sum of the non-padding
  elements divided by the number of all positions \<open>N\<close> of the slice, and the variance is
  the sum of the squared deviations of the non-padding elements, plus the squared mean once
  for each padding position, divided by \<open>N - 1\<close>, plus epsilon. Padding positions are
  counted in both divisors.
\<close>

theorem statistics_zero_fill:
  assumes "padding_value g = Some pad"
  shows "mean_of g f = sum_list (filter (\<lambda>v. v \<noteq> pad) f) / real (length f)
     \<and> var_of g f =
         ((\<Sum>v\<leftarrow>filter (\<lambda>v. v \<noteq> pad) f. (v - mean_of g f)\<^sup>2)
           + real (length (filter (\<lambda>v. v = pad) f)) * (mean_of g f)\<^sup>2) / real (length f - 1)
         + eps g"
proof -
  have m: "mean_of g f = sum_list (filter (\<lambda>v. v \<noteq> pad) f) / real (length f)"
    using assms by (simp add: mean_of_def mean_t_def x_masked_def sum_list_zero_fill)
  have "var_of g f = (\<Sum>v\<leftarrow>f. ((if v \<noteq> pad then v else 0) - mean_of g f)\<^sup>2)
      / real (length f - 1) + eps g"
    using assms by (simp add: var_of_def mean_of_def var_t_def x_masked_def comp_def)
  then show ?thesis using m by (simp only: sum_sq_zero_fill)
qed

theorem statistics_zero_fill_witness:
  "mean_of g_pad [2, 4, - 1] = 2 \<and> var_of g_pad [2, 4, - 1] = 4 + eps g_pad"
proof -
  have pre: "padding_value g_pad = Some (- 1)" by (simp add: g_pad_def)
  from statistics_zero_fill [OF pre, of "[2, 4, - 1]"] show ?thesis
    by (simp add: power2_eq_square)
qed

text \<open>
  Claim C2 as stated fails: on the slice \<open>[2, 4, -1]\<close> with padding value \<open>-1\<close> the
  non-padding elements \<open>[2, 4]\<close> have mean 3 and variance 2, and the call uses the mean 2
  and the variance 4 (plus epsilon).
\<close>

theorem statistics_exclude_padding_counterexample:
  "mean_of g_pad [2, 4, - 1] = 2 \<and> mean_t [2, 4] = 3
   \<and> var_of g_pad [2, 4, - 1] = 4 + eps g_pad \<and> var_t [2, 4] + eps g_pad = 2 + eps g_pad
   \<and> mean_of g_pad [2, 4, - 1] \<noteq> mean_t [2, 4]
   \<and> var_of g_pad [2, 4, - 1] \<noteq> var_t [2, 4] + eps g_pad"
  by (simp add: mean_of_def var_of_def mean_t_def var_t_def x_masked_def g_pad_def
      power2_eq_square)

lemma init_g_one: "init 0 1 (ScaleNumber 2) (1 / 10 ^ 8) (PyBool True) None = Inr g_one"
  by (simp add: init_def init_c_def init_weights_def g_one_def)

lemma mean_g_one: "mean_of g_one [1, 2, 3, 4] = 5 / 2"
  by (simp add: mean_of_def mean_t_def x_masked_def g_one_def)

lemma var_g_one: "var_of g_one [1, 2, 3, 4] = 5 / 3 + 1 / 10 ^ 8"
  by (simp add: var_of_def var_t_def mean_t_def x_masked_def g_one_def power2_eq_square)

lemma nw_g_one: "normalized_weights g_one = [1]"
  by (simp add: normalized_weights_def softmax_def g_one_def)

lemma gaussian_g_one:
  "gaussian g_one [1, 2, 3, 4] 0 = [bell (9 / 4), bell (1 / 4), bell (1 / 4), bell (9 / 4)]"
proof -
  have v: "(0::real) \<le> 5 / 3 + 1 / 10 ^ 8" by simp
  have sq: "(d / sqrt (5 / 3 + 1 / 10 ^ 8))\<^sup>2 = d\<^sup>2 / (5 / 3 + 1 / 10 ^ 8)" for d :: real
    using v by (simp only: power_divide real_sqrt_pow2)
  have m: "mean_offsets g_one ! 0 = 0" "scale_c g_one ! 0 = 2" by (simp_all add: g_one_def)
  show ?thesis
    unfolding gaussian_def Let_def mean_g_one var_g_one m sq bell_def
    by (simp add: power2_eq_square)
qed

lemma mixture_g_one:
  "mixture_of g_one [1, 2, 3, 4] = [bell (9 / 4), bell (1 / 4), bell (1 / 4), bell (9 / 4)]"
proof -
  have "num_gaussians g_one = 1" by (simp add: g_one_def)
  then show ?thesis
    by (simp add: mixture_of_def mixture_step_def nw_g_one gaussian_g_one numeral_eq_Suc)
qed

lemma bell_pos: "0 < bell d"
  by (simp add: bell_def)

lemma bell_less: "bell (9 / 4) < bell (1 / 4)"
  by (simp add: bell_def)

lemma y_transform_g_one:
  "y_transform g_one [1, 2, 3, 4] =
     (let total = max (bell (9 / 4) + bell (1 / 4) + bell (1 / 4) + bell (9 / 4)) (eps g_one)
      in [bell (9 / 4) / total, bell (1 / 4) / total, bell (1 / 4) / total, bell (9 / 4) / total])"
  by (simp add: y_transform_def mixture_g_one Let_def add.assoc)

lemma bell_quarter_ge: "1 / 2 \<le> bell (1 / 4)"
proof -
  have "1 + - ((1 / 4) / (5 / 3 + 1 / 10 ^ 8)) / 8 \<le> bell (1 / 4)"
    unfolding bell_def by (rule exp_ge_add_one_self)
  moreover have "(1::real) / 2 \<le> 1 + - ((1 / 4) / (5 / 3 + 1 / 10 ^ 8)) / 8" by simp
  ultimately show ?thesis by linarith
qed

text \<open>The two cases of claim C9 on \<open>g_one\<close>: the slice \<open>[1, 2, 3, 4]\<close>, whose mixture sum
  exceeds epsilon, and the empty slice, whose mixture sum is 0.\<close>

theorem transform_sums_to_one_witness:
  "sum_list (y_transform g_one [1, 2, 3, 4]) = 1
   \<and> forward_fibre g_one [1, 2, 3, 4] = map2 (*) [1, 2, 3, 4] (y_transform g_one [1, 2, 3, 4])
   \<and> sum_list (y_transform g_one []) = 0 / eps g_one"
proof -
  have e: "0 < eps g_one" "eps g_one = 1 / 10 ^ 8" "padding_value g_one = None"
    by (simp_all add: g_one_def)
  have "0 < bell (9 / 4)" by (rule bell_pos)
  with bell_quarter_ge have "eps g_one \<le> sum_list (mixture_of g_one [1, 2, 3, 4])"
    unfolding mixture_g_one e(2) by simp
  moreover have z: "sum_list (mixture_of g_one []) = 0"
    by (simp add: mixture_of_def g_one_def mixture_step_def)
  moreover have "sum_list (mixture_of g_one []) < eps g_one"
    unfolding z by (rule e(1))
  ultimately show ?thesis
    using transform_sums_to_one [OF e(1), of "[1, 2, 3, 4]"]
      transform_sums_to_one [OF e(1), of "[]"] e(3)
    by simp
qed

text \<open>
  Claim C3, as amended. For the instance that the constructor builds from
  \<^verbatim>\<open>norm_axis=0, num_gaussians=1\<close> and the defaults (offset 0, scale 2, one learnable
  weight, whose softmax is 1) and the input \<open>[1, 2, 3, 4]\<close>: the mean is \<open>5/2\<close>, the
  variance is \<open>5/3\<close> plus epsilon (torch's default variance divides by \<open>N - 1 = 3\<close>), the
  transform is symmetric, positive, and larger at the two middle positions than at the two
  ends, and the output is the input multiplied by it position by position.
\<close>

theorem concrete_scenario:
  "init 0 1 (ScaleNumber 2) (1 / 10 ^ 8) (PyBool True) None = Inr g_one
   \<and> mean_of g_one [1, 2, 3, 4] = 5 / 2
   \<and> var_of g_one [1, 2, 3, 4] = 5 / 3 + eps g_one
   \<and> (let t = y_transform g_one [1, 2, 3, 4]
      in length t = 4 \<and> t ! 0 = t ! 3 \<and> t ! 1 = t ! 2 \<and> 0 < t ! 0 \<and> t ! 0 < t ! 1
         \<and> forward g_one \<lparr>extent = 4, fibres = [[1, 2, 3, 4]]\<rparr>
             = Inr \<lparr>extent = 4, fibres = [[1 * t ! 0, 2 * t ! 1, 3 * t ! 2, 4 * t ! 3]]\<rparr>)"
proof -
  define total where "total = max (bell (9 / 4) + bell (1 / 4) + bell (1 / 4) + bell (9 / 4)) (eps g_one)"
  have e: "eps g_one = 1 / 10 ^ 8" by (simp add: g_one_def)
  have tp: "0 < total" unfolding total_def e by simp
  have t: "y_transform g_one [1, 2, 3, 4]
      = [bell (9 / 4) / total, bell (1 / 4) / total, bell (1 / 4) / total, bell (9 / 4) / total]"
    by (simp add: y_transform_g_one total_def Let_def)
  have lt: "bell (9 / 4) / total < bell (1 / 4) / total"
    using tp bell_less by (simp add: divide_strict_right_mono)
  have p: "0 < bell (9 / 4) / total" using tp bell_pos by simp
  have ok: "gaa_ok g_one" "num_gaussians g_one \<noteq> 0" "padding_value g_one = None"
    by (simp_all add: gaa_ok_def g_one_def)
  have f: "forward g_one \<lparr>extent = 4, fibres = [[1, 2, 3, 4]]\<rparr>
     = Inr \<lparr>extent = 4, fibres = [[1 * (bell (9 / 4) / total), 2 * (bell (1 / 4) / total),
          3 * (bell (1 / 4) / total), 4 * (bell (9 / 4) / total)]]\<rparr>"
    by (simp add: forward_succeeds [OF ok(1,2)] forward_fibre_def ok(3) t)
  have v: "var_of g_one [1, 2, 3, 4] = 5 / 3 + eps g_one"
    unfolding var_g_one e ..
  have shape: "length (y_transform g_one [1, 2, 3, 4]) = 4"
    "y_transform g_one [1, 2, 3, 4] ! 0 = y_transform g_one [1, 2, 3, 4] ! 3"
    "y_transform g_one [1, 2, 3, 4] ! 1 = y_transform g_one [1, 2, 3, 4] ! 2"
    "0 < y_transform g_one [1, 2, 3, 4] ! 0"
    "y_transform g_one [1, 2, 3, 4] ! 0 < y_transform g_one [1, 2, 3, 4] ! 1"
    unfolding t using lt p by simp_all
  have out: "forward g_one \<lparr>extent = 4, fibres = [[1, 2, 3, 4]]\<rparr>
     = Inr \<lparr>extent = 4, fibres = [[1 * y_transform g_one [1, 2, 3, 4] ! 0,
          2 * y_transform g_one [1, 2, 3, 4] ! 1, 3 * y_transform g_one [1, 2, 3, 4] ! 2,
          4 * y_transform g_one [1, 2, 3, 4] ! 3]]\<rparr>"
    unfolding f t by simp
  show ?thesis
    unfolding Let_def using init_g_one mean_g_one v shape out by blast
qed

text \<open>
  Claim C3 as stated fails in its variance: the value used is not near \<open>1.25\<close> plus
  epsilon, it exceeds it by \<open>5/12\<close>.
\<close>

theorem concrete_scenario_variance_counterexample:
  "var_of g_one [1, 2, 3, 4] - (5 / 4 + eps g_one) = 5 / 12"
proof -
  have "eps g_one = 1 / 10 ^ 8" by (simp add: g_one_def)
  then show ?thesis unfolding var_g_one by simp
qed

section \<open>The multi-head module\<close>

lemma map_e_map: "map_e F (map k xs) = map_e (\<lambda>a. F (k a)) xs"
  by (induction xs) (simp_all split: sum.splits)

lemma map_e_Inr: "(\<forall>a\<in>set xs. F a = Inr (h a)) \<Longrightarrow> map_e F xs = Inr (map h xs)"
  by (induction xs) simp_all

lemma map_e_cong: "(\<forall>a\<in>set xs. F a = F' a) \<Longrightarrow> map_e F xs = map_e F' xs"
  by (induction xs) (simp_all split: sum.splits)

lemma map_e_Inr_D:
  "map_e F xs = Inr ys \<Longrightarrow> length ys = length xs \<and> (\<forall>i<length xs. F (xs ! i) = Inr (ys ! i))"
proof (induction xs arbitrary: ys)
  case Nil
  then show ?case by simp
next
  case (Cons a xs)
  then show ?case
    by (auto split: sum.splits simp: nth_Cons split: nat.splits)
qed

lemma enumerate_as_map: "enumerate 0 xs = map (\<lambda>i. (i, xs ! i)) [0..<length xs]"
  by (rule nth_equalityI) (simp_all add: nth_enumerate_eq)

lemma take_drop_as_map:
  "s + n \<le> length f \<Longrightarrow> take n (drop s f) = map (\<lambda>k. f ! k) [s..<s + n]"
  by (rule nth_equalityI) simp_all

lemma narrow_head_slice:
  assumes "wf_tensor x" and "(i + 1) * chunk \<le> extent x"
  shows "narrow x (i * chunk) chunk = Inr (head_slice x chunk i)"
proof -
  have "\<forall>f\<in>set (fibres x). take chunk (drop (i * chunk) f)
      = map (\<lambda>k. f ! k) [i * chunk..<(i + 1) * chunk]"
    using assms by (auto simp: wf_tensor_def list_all_iff take_drop_as_map add.commute)
  then show ?thesis using assms(2) by (simp add: narrow_def head_slice_def)
qed

lemma cat_concat:
  assumes "ts \<noteq> []" and "\<forall>t\<in>set ts. length (fibres t) = n"
  shows "cat ts = Inr \<lparr>extent = sum_list (map extent ts),
      fibres = map (\<lambda>j. concat (map (\<lambda>t. fibres t ! j) ts)) [0..<n]\<rparr>"
  using assms
proof (induction ts rule: cat.induct)
  case 1
  then show ?case by simp
next
  case (2 t)
  have "fibres t = map (\<lambda>j. fibres t ! j) [0..<n]"
    using 2 by (intro nth_equalityI) simp_all
  then show ?case by simp
next
  case (3 t u us)
  have "map2 (@) (fibres t) (map (\<lambda>j. concat (map (\<lambda>t. fibres t ! j) (u # us))) [0..<n])
     = map (\<lambda>j. concat (map (\<lambda>t. fibres t ! j) (t # u # us))) [0..<n]"
    using 3(3) by (intro nth_equalityI) simp_all
  with 3 show ?case by simp
qed

lemma forward_shape:
  "forward g s = Inr y \<Longrightarrow> extent y = extent s \<and> length (fibres y) = length (fibres s)"
  by (auto simp: forward_def split: if_splits)

lemma chunk_in_range:
  assumes "i < H"
  shows "(i + 1) * (E div H) \<le> (E::nat)"
proof -
  have "Suc i \<le> H" using assms by simp
  then have "(i + 1) * (E div H) \<le> H * (E div H)"
    using mult_le_mono1 [of "Suc i" H "E div H"] by simp
  also have "\<dots> \<le> E" by simp
  finally show ?thesis .
qed

lemma mh_forward_concat:
  assumes len: "length (attention_heads m) = num_heads m"
    and chunk: "0 < extent x div num_heads m"
    and wf: "wf_tensor x"
    and r: "\<forall>i<num_heads m.
        forward (attention_heads m ! i) (head_slice x (extent x div num_heads m) i) = Inr (r i)"
  shows "mh_forward m x = Inr (concat_heads (length (fibres x)) (num_heads m) r)"
proof -
  let ?H = "num_heads m" and ?c = "extent x div num_heads m" and ?n = "length (fibres x)"
  let ?F = "\<lambda>(i, head). case narrow x (i * ?c) ?c of Inl err \<Rightarrow> Inl err
                          | Inr s \<Rightarrow> forward head s"
  have H: "?H \<noteq> 0" using chunk by (cases "?H = 0") simp_all
  have step: "\<forall>i\<in>set [0..<?H]. ?F (i, attention_heads m ! i) = Inr (r i)"
  proof
    fix i assume "i \<in> set [0..<?H]"
    then have i: "i < ?H" by simp
    have "narrow x (i * ?c) ?c = Inr (head_slice x ?c i)"
      using wf chunk_in_range [OF i] by (rule narrow_head_slice)
    then show "?F (i, attention_heads m ! i) = Inr (r i)"
      using r i by simp
  qed
  have "map_e ?F (enumerate 0 (attention_heads m))
      = map_e (\<lambda>i. ?F (i, attention_heads m ! i)) [0..<?H]"
    by (simp only: enumerate_as_map map_e_map len)
  also have "\<dots> = Inr (map r [0..<?H])"
    using step by (rule map_e_Inr)
  finally have ys: "map_e ?F (enumerate 0 (attention_heads m)) = Inr (map r [0..<?H])" .
  have ne: "map r [0..<?H] \<noteq> []" using H by simp
  have nf: "\<forall>t\<in>set (map r [0..<?H]). length (fibres t) = ?n"
    using r by (auto dest!: forward_shape simp: head_slice_def)
  have "cat (map r [0..<?H]) = Inr (concat_heads ?n ?H r)"
    by (simp add: cat_concat [OF ne nf] concat_heads_def comp_def)
  then show ?thesis
    using H chunk ys by (simp add: mh_forward_def Let_def)
qed

lemma mh_forward_Inr_D:
  assumes len: "length (attention_heads m) = num_heads m"
    and wf: "wf_tensor x"
    and y: "mh_forward m x = Inr y"
  shows "\<exists>r. \<forall>i<num_heads m.
        forward (attention_heads m ! i) (head_slice x (extent x div num_heads m) i) = Inr (r i)"
proof -
  let ?H = "num_heads m" and ?c = "extent x div num_heads m"
  let ?F = "\<lambda>(i, head). case narrow x (i * ?c) ?c of Inl err \<Rightarrow> Inl err
                          | Inr s \<Rightarrow> forward head s"
  from y obtain ys where ys: "map_e ?F (enumerate 0 (attention_heads m)) = Inr ys"
    by (auto simp: mh_forward_def Let_def split: if_splits sum.splits)
  have "\<forall>i<?H. forward (attention_heads m ! i) (head_slice x ?c i) = Inr (ys ! i)"
  proof (intro allI impI)
    fix i assume i: "i < ?H"
    from map_e_Inr_D [OF ys] i len
    have "?F (enumerate 0 (attention_heads m) ! i) = Inr (ys ! i)" by simp
    then have "?F (i, attention_heads m ! i) = Inr (ys ! i)"
      using i len by (simp add: nth_enumerate_eq)
    moreover have "narrow x (i * ?c) ?c = Inr (head_slice x ?c i)"
      using wf chunk_in_range [OF i] by (rule narrow_head_slice)
    ultimately show "forward (attention_heads m ! i) (head_slice x ?c i) = Inr (ys ! i)"
      by simp
  qed
  then show ?thesis by blast
qed

lemma sum_list_const: "(\<Sum>i\<leftarrow>xs. (c::nat)) = length xs * c"
  by (induction xs) simp_all

lemma concat_heads_shape:
  assumes "\<forall>i<H. extent (r i) = c \<and> wf_tensor (r i) \<and> length (fibres (r i)) = n"
  shows "extent (concat_heads n H r) = H * c \<and> wf_tensor (concat_heads n H r)
     \<and> length (fibres (concat_heads n H r)) = n"
proof -
  have e: "map (\<lambda>i. extent (r i)) [0..<H] = map (\<lambda>i. c) [0..<H]"
    using assms by simp
  have "extent (concat_heads n H r) = H * c"
    by (simp add: concat_heads_def e sum_list_const)
  moreover have "wf_tensor (concat_heads n H r)"
  proof -
    have "length (concat (map (\<lambda>i. fibres (r i) ! j) [0..<H])) = H * c" if "j < n" for j
    proof -
      have "map (\<lambda>i. length (fibres (r i) ! j)) [0..<H] = map (\<lambda>i. c) [0..<H]"
        using assms that by (auto simp: wf_tensor_def list_all_length)
      then have "(\<Sum>i\<leftarrow>[0..<H]. length (fibres (r i) ! j)) = H * c"
        by (simp only: sum_list_const) simp
      then show ?thesis by (simp add: length_concat comp_def)
    qed
    then show ?thesis
      by (simp add: wf_tensor_def list_all_iff \<open>extent (concat_heads n H r) = H * c\<close>)
        (auto simp: concat_heads_def)
  qed
  ultimately show ?thesis by (simp add: concat_heads_def)
qed

lemma head_slice_wf: "wf_tensor (head_slice x c i)"
  by (simp add: head_slice_def wf_tensor_def list_all_iff)

lemma mh_forward_truncate:
  assumes len: "length (attention_heads m) = num_heads m"
  shows "mh_forward m \<lparr>extent = num_heads m * (extent x div num_heads m),
            fibres = map (take (num_heads m * (extent x div num_heads m))) (fibres x)\<rparr>
         = mh_forward m x"
proof (cases "num_heads m = 0")
  case True
  then show ?thesis by (simp add: mh_forward_def)
next
  case False
  let ?H = "num_heads m" and ?c = "extent x div num_heads m"
  let ?x' = "\<lparr>extent = ?H * ?c, fibres = map (take (?H * ?c)) (fibres x)\<rparr>"
  have c': "extent ?x' div ?H = ?c" using False by simp
  have nar: "narrow ?x' (i * ?c) ?c = narrow x (i * ?c) ?c" if "i < ?H" for i
  proof -
    have a: "i * ?c + ?c \<le> ?H * ?c"
      using that mult_le_mono1 [of "Suc i" ?H ?c] by simp
    then have b: "i * ?c + ?c \<le> extent x"
      using chunk_in_range [OF that, of "extent x"] by simp
    have "take ?c (drop (i * ?c) (take (?H * ?c) f)) = take ?c (drop (i * ?c) f)" for f :: "real list"
      using a by (simp add: drop_take min_def)
    then show ?thesis using a b by (simp add: narrow_def)
  qed
  have "map_e (\<lambda>(i, head). case narrow ?x' (i * ?c) ?c of Inl err \<Rightarrow> Inl err
                          | Inr s \<Rightarrow> forward head s) (enumerate 0 (attention_heads m))
      = map_e (\<lambda>(i, head). case narrow x (i * ?c) ?c of Inl err \<Rightarrow> Inl err
                          | Inr s \<Rightarrow> forward head s) (enumerate 0 (attention_heads m))"
    by (rule map_e_cong) (auto simp: in_set_enumerate_eq len nar)
  then show ?thesis
    unfolding mh_forward_def Let_def c' by simp
qed

lemma mh_init_ok:
  assumes "mh_init axis H G iv lw pad e = Inr m"
  shows "length (attention_heads m) = num_heads m \<and> list_all gaa_ok (attention_heads m)"
proof -
  from assms obtain hs where hs: "map_e (\<lambda>_. init axis G iv e lw pad) [0..<H] = Inr hs"
    and m: "m = \<lparr>num_heads = H, attention_heads = hs\<rparr>"
    by (auto simp: mh_init_def split: sum.splits)
  from map_e_Inr_D [OF hs] have l: "length hs = H"
    and a: "\<forall>i<H. init axis G iv e lw pad = Inr (hs ! i)" by simp_all
  from a have "\<forall>i<length hs. gaa_ok (hs ! i)" using l init_gaa_ok by blast
  with l m show ?thesis by (simp add: list_all_length)
qed

lemma concat_nth_uniform:
  "\<forall>l\<in>set xss. length l = c \<Longrightarrow> p < length xss * c \<Longrightarrow>
   concat xss ! p = xss ! (p div c) ! (p mod c)"
proof (induction xss arbitrary: p)
  case Nil
  then show ?case by simp
next
  case (Cons l xss)
  show ?case
  proof (cases "p < c")
    case True
    with Cons.prems show ?thesis by (simp add: nth_append)
  next
    case False
    then have c: "c \<le> p" by simp
    with Cons.prems have "p - c < length xss * c" by auto
    with Cons have "concat xss ! (p - c) = xss ! ((p - c) div c) ! ((p - c) mod c)" by simp
    moreover have "0 < c" using Cons.prems(2) by (cases c) simp_all
    then have "p div c = Suc ((p - c) div c)" "p mod c = (p - c) mod c"
      using c by (simp_all add: le_div_geq le_mod_geq)
    ultimately show ?thesis using Cons.prems False by (simp add: nth_append)
  qed
qed

text \<open>
  Claim C5. When every head has at least one element (\<open>chunk_size > 0\<close>) and \<open>r i\<close> is what
  head \<open>i\<close> alone returns on its slice \<open>[i * chunk_size, (i + 1) * chunk_size)\<close> of the
  input, the multi-head call returns the concatenation of \<open>r 0, \<dots>, r (H - 1)\<close> in that
  order: position \<open>p\<close> of a slice of the output is position \<open>p mod chunk_size\<close> of the
  result of head \<open>p div chunk_size\<close>.
\<close>

theorem mh_forward_is_concatenation:
  assumes "length (attention_heads m) = num_heads m"
    and "0 < extent x div num_heads m"
    and "wf_tensor x"
    and "\<forall>i<num_heads m.
        forward (attention_heads m ! i) (head_slice x (extent x div num_heads m) i) = Inr (r i)"
  shows "mh_forward m x = Inr (concat_heads (length (fibres x)) (num_heads m) r)
     \<and> (\<forall>j<length (fibres x). \<forall>p<num_heads m * (extent x div num_heads m).
          fibres (concat_heads (length (fibres x)) (num_heads m) r) ! j ! p
          = fibres (r (p div (extent x div num_heads m))) ! j ! (p mod (extent x div num_heads m)))"
proof -
  let ?H = "num_heads m" and ?c = "extent x div num_heads m" and ?n = "length (fibres x)"
  have shape: "\<forall>i<?H. extent (r i) = ?c \<and> wf_tensor (r i) \<and> length (fibres (r i)) = ?n"
    using assms(4) forward_shape forward_wf head_slice_wf
    by (fastforce simp: head_slice_def)
  have "fibres (concat_heads ?n ?H r) ! j ! p = fibres (r (p div ?c)) ! j ! (p mod ?c)"
    if j: "j < ?n" and p: "p < ?H * ?c" for j p
  proof -
    have "\<forall>l\<in>set (map (\<lambda>i. fibres (r i) ! j) [0..<?H]). length l = ?c"
      using shape j by (auto simp: wf_tensor_def list_all_length)
    from concat_nth_uniform [OF this, of p] p
    have "concat (map (\<lambda>i. fibres (r i) ! j) [0..<?H]) ! p
        = map (\<lambda>i. fibres (r i) ! j) [0..<?H] ! (p div ?c) ! (p mod ?c)" by simp
    moreover have "p div ?c < ?H"
      using p assms(2) by (simp add: less_mult_imp_div_less)
    ultimately show ?thesis using j by (simp add: concat_heads_def)
  qed
  with mh_forward_concat [OF assms] show ?thesis by blast
qed

text \<open>
  Claim C7. When the extent of the input along the axis, divided by the number of heads, is
  0, the call raises ValueError: whatever the heads and the elements of the input are, no
  head is called and no tensor is returned. (For \<open>num_heads = 0\<close> Python's division has no
  value and raises ZeroDivisionError, while \<open>div\<close> of HOL returns 0: hence the first
  hypothesis.)
\<close>

theorem mh_forward_chunk_zero:
  assumes "num_heads m \<noteq> 0" and "extent x div num_heads m = 0"
  shows "mh_forward m x = Inl ValueError"
  using assms by (simp add: mh_forward_def)

theorem mh_forward_chunk_zero_witness:
  "mh_forward m_two \<lparr>extent = 1, fibres = [[5]]\<rparr> = Inl ValueError"
proof -
  have "num_heads m_two \<noteq> 0" "extent \<lparr>extent = 1, fibres = [[5]]\<rparr> div num_heads m_two = 0"
    by (simp_all add: m_two_def)
  then show ?thesis by (rule mh_forward_chunk_zero)
qed

text \<open>
  Claim C4. For an input of extent \<open>E\<close> and a module of \<open>H\<close> heads with \<open>E div H \<ge> 1\<close>:
  every output has extent \<open>H * (E div H)\<close> along the axis, which is \<open>E\<close> when \<open>H\<close> divides
  \<open>E\<close>, and the other axes are unchanged; the call returns the same on the input cut to its
  first \<open>H * (E div H)\<close> positions, so the trailing \<open>E mod H\<close> elements reach no head and
  are not in the output; and the call does return an output when every head has at least one
  component.
\<close>

theorem mh_forward_extent:
  assumes len: "length (attention_heads m) = num_heads m"
    and chunk: "1 \<le> extent x div num_heads m"
    and wf: "wf_tensor x"
  shows "(\<forall>y. mh_forward m x = Inr y \<longrightarrow>
            extent y = num_heads m * (extent x div num_heads m)
          \<and> (num_heads m dvd extent x \<longrightarrow> extent y = extent x)
          \<and> wf_tensor y \<and> length (fibres y) = length (fibres x))
     \<and> mh_forward m \<lparr>extent = num_heads m * (extent x div num_heads m),
            fibres = map (take (num_heads m * (extent x div num_heads m))) (fibres x)\<rparr>
         = mh_forward m x
     \<and> (list_all (\<lambda>g. gaa_ok g \<and> num_gaussians g \<noteq> 0) (attention_heads m) \<longrightarrow>
          (\<exists>y. mh_forward m x = Inr y))"
proof -
  let ?H = "num_heads m" and ?c = "extent x div num_heads m" and ?n = "length (fibres x)"
  have c0: "0 < ?c" using chunk by simp
  have a: "extent y = ?H * ?c \<and> (?H dvd extent x \<longrightarrow> extent y = extent x)
          \<and> wf_tensor y \<and> length (fibres y) = ?n" if y: "mh_forward m x = Inr y" for y
  proof -
    from mh_forward_Inr_D [OF len wf y] obtain r where
      r: "\<forall>i<?H. forward (attention_heads m ! i) (head_slice x ?c i) = Inr (r i)" ..
    have shape: "\<forall>i<?H. extent (r i) = ?c \<and> wf_tensor (r i) \<and> length (fibres (r i)) = ?n"
      using r forward_shape forward_wf head_slice_wf
      by (fastforce simp: head_slice_def)
    from mh_forward_concat [OF len c0 wf r] y have "y = concat_heads ?n ?H r" by simp
    with concat_heads_shape [OF shape] show ?thesis by simp
  qed
  have b: "\<exists>y. mh_forward m x = Inr y"
    if ok: "list_all (\<lambda>g. gaa_ok g \<and> num_gaussians g \<noteq> 0) (attention_heads m)"
  proof -
    let ?r = "\<lambda>i. \<lparr>extent = extent (head_slice x ?c i),
        fibres = map (forward_fibre (attention_heads m ! i)) (fibres (head_slice x ?c i))\<rparr>"
    have "\<forall>i<?H. forward (attention_heads m ! i) (head_slice x ?c i) = Inr (?r i)"
      using ok len by (simp add: list_all_length forward_succeeds)
    from mh_forward_concat [OF len c0 wf this] show ?thesis by blast
  qed
  from a b mh_forward_truncate [OF len, of x] show ?thesis by blast
qed

lemma m_two_heads:
  "length (attention_heads m_two) = num_heads m_two"
  "list_all (\<lambda>g. gaa_ok g \<and> num_gaussians g \<noteq> 0) (attention_heads m_two)"
  by (simp_all add: m_two_def g_one_def g_sharp_def gaa_ok_def)

theorem mh_forward_extent_witness:
  "(\<exists>y. mh_forward m_two x_seven = Inr y \<and> extent y = 6 \<and> wf_tensor y)
   \<and> (\<exists>y. mh_forward m_two x_eight = Inr y \<and> extent y = 8 \<and> wf_tensor y)"
proof -
  have c7: "1 \<le> extent x_seven div num_heads m_two" "wf_tensor x_seven"
    "num_heads m_two * (extent x_seven div num_heads m_two) = 6"
    by (simp_all add: m_two_def x_seven_def wf_tensor_def)
  have c8: "1 \<le> extent x_eight div num_heads m_two" "wf_tensor x_eight"
    "num_heads m_two * (extent x_eight div num_heads m_two) = 8"
    by (simp_all add: m_two_def x_eight_def wf_tensor_def)
  from mh_forward_extent [OF m_two_heads(1) c7(1,2)] m_two_heads(2) c7(3)
  have "\<exists>y. mh_forward m_two x_seven = Inr y \<and> extent y = 6 \<and> wf_tensor y" by metis
  moreover from mh_forward_extent [OF m_two_heads(1) c8(1,2)] m_two_heads(2) c8(3)
  have "\<exists>y. mh_forward m_two x_eight = Inr y \<and> extent y = 8 \<and> wf_tensor y" by metis
  ultimately show ?thesis by blast
qed

lemma head_slice_x_eight:
  "head_slice x_eight 4 0 = \<lparr>extent = 4, fibres = [[1, 2, 3, 4]]\<rparr>"
  "head_slice x_eight 4 (Suc 0) = \<lparr>extent = 4, fibres = [[5, 6, 7, 8]]\<rparr>"
  by (simp_all add: head_slice_def x_eight_def upt_rec)

theorem mh_forward_is_concatenation_witness:
  "mh_forward m_two x_eight
     = Inr \<lparr>extent = 8,
            fibres = [forward_fibre g_one [1, 2, 3, 4] @ forward_fibre g_sharp [5, 6, 7, 8]]\<rparr>"
proof -
  let ?r = "\<lambda>i::nat. \<lparr>extent = 4,
      fibres = [if i = 0 then forward_fibre g_one [1, 2, 3, 4]
                else forward_fibre g_sharp [5, 6, 7, 8]]\<rparr>"
  have ok: "gaa_ok g_one" "num_gaussians g_one \<noteq> 0" "gaa_ok g_sharp" "num_gaussians g_sharp \<noteq> 0"
    by (simp_all add: g_one_def g_sharp_def gaa_ok_def)
  have c: "extent x_eight div num_heads m_two = 4" "num_heads m_two = 2"
    "length (fibres x_eight) = 1" "extent x_eight div 2 = 4"
    by (simp_all add: m_two_def x_eight_def)
  have pre: "0 < extent x_eight div num_heads m_two" "wf_tensor x_eight"
    by (simp_all add: m_two_def x_eight_def wf_tensor_def)
  have r: "\<forall>i<num_heads m_two.
      forward (attention_heads m_two ! i)
        (head_slice x_eight (extent x_eight div num_heads m_two) i) = Inr (?r i)"
    unfolding c
    by (auto simp: less_2_cases_iff head_slice_x_eight m_two_def forward_succeeds ok)
  have "concat_heads 1 2 ?r = \<lparr>extent = 8,
      fibres = [forward_fibre g_one [1, 2, 3, 4] @ forward_fibre g_sharp [5, 6, 7, 8]]\<rparr>"
    by (simp add: concat_heads_def upt_rec)
  with mh_forward_is_concatenation [OF m_two_heads(1) pre r] show ?thesis
    unfolding c by simp
qed

end
